theory Spec2Isabelle
  imports Main
begin

section \<open>The host editor and the operating system, as the plugin sees them\<close>

text \<open>
  Both command handlers run inside a host editor. Everything they know about the buffer,
  the selection and the folds they learn by asking the host, and everything they change
  they change by asking the host. The host is therefore a parameter of the model: a view
  state of an arbitrary type \<open>'v\<close> and a record of the operations the source calls on it.
  The module \<open>headline\<close> that \<open>smart_folding.py\<close> imports is not among the source files;
  the functions the source calls from it are fields of the same record.
\<close>

datatype region = Region (region_a: int) (region_b: int)

record 'v host =
  sel :: "'v \<Rightarrow> region list"
  folded_regions :: "'v \<Rightarrow> region list"
  rowcol :: "'v \<Rightarrow> int \<Rightarrow> int \<times> int"
  text_point :: "'v \<Rightarrow> int \<Rightarrow> int \<Rightarrow> int"
  view_size :: "'v \<Rightarrow> int"
  substr :: "'v \<Rightarrow> region \<Rightarrow> string"
  encoding :: "'v \<Rightarrow> string"
  file_name :: "'v \<Rightarrow> string option"
  view_insert :: "int \<Rightarrow> string \<Rightarrow> 'v \<Rightarrow> 'v"
  view_fold :: "region \<Rightarrow> 'v \<Rightarrow> 'v"
  view_unfold :: "region \<Rightarrow> 'v \<Rightarrow> 'v"
  sel_clear :: "'v \<Rightarrow> 'v"
  sel_add :: "region \<Rightarrow> 'v \<Rightarrow> 'v"
  region_contains :: "region \<Rightarrow> region \<Rightarrow> bool"
  region_truthy :: "region \<Rightarrow> bool"
  ANY_LEVEL :: int
  headline_and_level_at_point :: "'v \<Rightarrow> int \<Rightarrow> int option"
  is_scope_headline :: "'v \<Rightarrow> int \<Rightarrow> bool"
  region_of_content_of_headline_at_point :: "'v \<Rightarrow> int \<Rightarrow> region option"
  find_headline :: "'v \<Rightarrow> int \<Rightarrow> int \<Rightarrow> bool \<Rightarrow> bool \<Rightarrow> region option \<times> int option"

text \<open>
  \<open>headline_and_level_at_point\<close> returns a pair in the source; the first component is
  thrown away at its only call, so the field gives the level alone (\<open>None\<close> for Python's
  \<open>None\<close>). The arguments of \<open>find_headline\<close> are the view, the starting point, the level,
  \<open>forward\<close> and \<open>skip_headline_at_point\<close>. \<open>region_truthy\<close> is the truth value the
  interpreter gives a region object in \<open>if region\<close>.

  What the operating system and the Python library contribute to the conversion command:
  the platform name, the names of the temporary files (the k-th file created during a run
  is named by \<open>tmp_name k\<close> followed by the requested suffix), \<open>os.path.splitext\<close>, and
  whether \<open>subprocess.call\<close> raises for a command (\<open>Some\<close> of the exception's text).
\<close>

record os =
  platform :: string
  tmp_name :: "nat \<Rightarrow> string"
  splitext :: "string \<Rightarrow> string \<times> string"
  call_error :: "string list \<Rightarrow> string option"

text \<open>
  Every request that leaves the plugin is written to a log, in the order of the calls.
  The first five events are the host calls that change the buffer text, the selection or
  the folded regions; \<open>Show\<close> scrolls the viewport; the rest are effects outside the editor.
\<close>

datatype event =
    Insert int string
  | Fold region
  | Unfold region
  | SelClear
  | SelAdd region
  | Show region
  | CreateTemp string string
  | WriteFile string string
  | SubprocessCall "string list"
  | ErrorMessage string
  | OpenNewTab string
  | StartFile string

datatype error =
    Exception string
  | NoneError
  | IndexError
  | OSError string
  | RecursionLimit

record 'v st =
  view :: 'v
  log :: "event list"

fun apply_event :: "'v host \<Rightarrow> event \<Rightarrow> 'v \<Rightarrow> 'v" where
  "apply_event h (Insert p s) v = view_insert h p s v"
| "apply_event h (Fold r) v = view_fold h r v"
| "apply_event h (Unfold r) v = view_unfold h r v"
| "apply_event h SelClear v = sel_clear h v"
| "apply_event h (SelAdd r) v = sel_add h r v"
| "apply_event h _ v = v"

definition emit :: "'v host \<Rightarrow> event \<Rightarrow> 'v st \<Rightarrow> 'v st" where
  "emit h e s = \<lparr>view = apply_event h e (view s), log = log s @ [e]\<rparr>"

definition replay :: "'v host \<Rightarrow> event list \<Rightarrow> 'v \<Rightarrow> 'v" where
  "replay h es v = foldl (\<lambda>w e. apply_event h e w) v es"

section \<open>pandoc\_render.py\<close>

definition pandoc_args :: "string \<Rightarrow> string list option" where
  "pandoc_args target =
     (if target = ''pdf'' then Some []
      else if target = ''html'' then Some [''-t'', ''html5'']
      else if target = ''docx'' then Some [''-t'', ''docx'']
      else None)"

text \<open>
  \<open>run_pandoc\<close>: the command line is built outside the \<open>try\<close>, so a \<open>None\<close> argument list
  raises; an exception of \<open>subprocess.call\<close> is caught and shown in a dialog.
\<close>

definition run_pandoc ::
  "'v host \<Rightarrow> os \<Rightarrow> string \<Rightarrow> string \<Rightarrow> string list option \<Rightarrow> 'v st \<Rightarrow> (error + unit) \<times> 'v st" where
  "run_pandoc h w infile outfile args s =
     (case args of
        None \<Rightarrow> (Inl NoneError, s)
      | Some xs \<Rightarrow>
          (let cmd = [''pandoc''] @ xs;
               cmd = cmd @ [infile, ''-o'', outfile];
               s1 = emit h (SubprocessCall cmd) s
           in case call_error w cmd of
                None \<Rightarrow> (Inr (), s1)
              | Some e \<Rightarrow>
                  (Inr (), emit h (ErrorMessage
                     (''Unable to execute Pandoc.  '' @ [CHR 0x0A, CHR 0x0A] @ ''Details: '' @ e)) s1)))"

definition subprocess_call :: "'v host \<Rightarrow> os \<Rightarrow> string list \<Rightarrow> 'v st \<Rightarrow> (error + unit) \<times> 'v st" where
  "subprocess_call h w cmd s =
     (let s1 = emit h (SubprocessCall cmd) s
      in case call_error w cmd of None \<Rightarrow> (Inr (), s1) | Some e \<Rightarrow> (Inl (OSError e), s1))"

definition open_result :: "'v host \<Rightarrow> os \<Rightarrow> string \<Rightarrow> string \<Rightarrow> 'v st \<Rightarrow> (error + unit) \<times> 'v st" where
  "open_result h w outfile target s =
     (if target = ''html'' then (Inr (), emit h (OpenNewTab outfile) s)
      else if platform w = ''windows'' then (Inr (), emit h (StartFile outfile) s)
      else if platform w = ''osx'' then subprocess_call h w [''open'', outfile] s
      else if platform w = ''linux'' then subprocess_call h w [''xdg-open'', outfile] s
      else (Inr (), s))"

definition convert ::
  "'v host \<Rightarrow> os \<Rightarrow> string \<Rightarrow> bool \<Rightarrow> string \<Rightarrow> string \<Rightarrow> 'v st \<Rightarrow> (error + unit) \<times> 'v st" where
  "convert h w target openAfter tmp_md output_name s =
     (let args = pandoc_args target
      in case run_pandoc h w tmp_md output_name args s of
           (Inl e, s1) \<Rightarrow> (Inl e, s1)
         | (Inr _, s1) \<Rightarrow>
             (if openAfter then open_result h w output_name target s1 else (Inr (), s1)))"

text \<open>
  \<open>PandocRenderCommand.run\<close>. The variable \<open>encoding\<close> is computed and never read.
  \<open>convert\<close> is the tail of the method from \<open>args = self.pandoc_args(target)\<close> on, which
  both branches of \<open>if saveResult\<close> reach. \<open>additionalArguments\<close> is never read.
\<close>

definition PandocRenderCommand_run ::
  "'v host \<Rightarrow> os \<Rightarrow> string \<Rightarrow> bool \<Rightarrow> bool \<Rightarrow> string list \<Rightarrow> 'v st \<Rightarrow> (error + unit) \<times> 'v st" where
  "PandocRenderCommand_run h w target openAfter saveResult additionalArguments s =
     (if target \<notin> set [''html'', ''docx'', ''pdf'']
      then (Inl (Exception (''Format '' @ target @ '' currently unsopported'')), s)
      else
        (let encoding = encoding h (view s);
             encoding = (if encoding = ''Undefined'' then ''UTF-8''
                         else if encoding = ''Western (Windows 1252)'' then ''windows-1252''
                         else encoding);
             contents = substr h (view s) (Region 0 (view_size h (view s)));
             tmp_md = tmp_name w 0 @ ''.md'';
             s1 = emit h (CreateTemp tmp_md ''.md'') s;
             s2 = emit h (WriteFile tmp_md contents) s1;
             suffix = ''.'' @ target
         in if saveResult then
              (case file_name h (view s2) of
                 None \<Rightarrow> (Inl NoneError, s2)
               | Some f \<Rightarrow>
                   (let output_name = fst (splitext w f) @ suffix
                    in if f = [] then
                         (Inl (Exception ''Please safe the buffer before trying to export with pandoc.''), s2)
                       else convert h w target openAfter tmp_md output_name s2))
            else
              (let output_name = tmp_name w 1 @ suffix;
                   s3 = emit h (CreateTemp output_name suffix) s2
               in convert h w target openAfter tmp_md output_name s3)))"

section \<open>smart\_folding.py\<close>

text \<open>
  A \<open>for\<close> loop whose body may raise: the exception leaves the loop with the state reached
  so far. A loop over \<open>self.view.sel()\<close> visits the regions the selection held when the
  loop was entered.
\<close>

fun for_each :: "('i \<Rightarrow> 's \<Rightarrow> (error + unit) \<times> 's) \<Rightarrow> 'i list \<Rightarrow> 's \<Rightarrow> (error + unit) \<times> 's" where
  "for_each body [] s = (Inr (), s)"
| "for_each body (i # is) s =
     (case body i s of
        (Inl e, s1) \<Rightarrow> (Inl e, s1)
      | (Inr _, s1) \<Rightarrow> for_each body is s1)"

definition truth :: "'v host \<Rightarrow> region option \<Rightarrow> bool" where
  "truth h region = (case region of None \<Rightarrow> False | Some r \<Rightarrow> region_truthy h r)"

definition fold_region :: "'v host \<Rightarrow> region \<Rightarrow> 'v st \<Rightarrow> 'v st" where
  "fold_region h region s = emit h (Fold region) s"

definition is_region_totally_folded :: "'v host \<Rightarrow> 'v \<Rightarrow> region option \<Rightarrow> bool" where
  "is_region_totally_folded h v region =
     (case region of
        None \<Rightarrow> True
      | Some r \<Rightarrow>
          (if region_a r = region_b r then True
           else list_ex (\<lambda>i. region_contains h i r) (folded_regions h v)))"

text \<open>
  \<open>unfold_yet_fold_subheads\<close> calls back into \<open>fold_or_unfold_headline_at_point\<close>; the
  callee is the argument \<open>self\<close>. \<open>range(start_line, end_line + 1)\<close> is \<open>[start_line..end_line]\<close>.
\<close>

definition unfold_yet_fold_subheads ::
  "'v host \<Rightarrow> (int \<Rightarrow> int \<Rightarrow> 'v st \<Rightarrow> (error + bool) \<times> 'v st) \<Rightarrow> region \<Rightarrow> int \<Rightarrow> 'v st
     \<Rightarrow> (error + unit) \<times> 'v st" where
  "unfold_yet_fold_subheads h self region level s =
     (let s1 = emit h (Unfold region) s;
          start_line = fst (rowcol h (view s1) (region_a region));
          end_line = fst (rowcol h (view s1) (region_b region))
      in for_each
           (\<lambda>i t. case self (text_point h (view t) i 0) (level + 1) t of
                     (Inl e, t1) \<Rightarrow> (Inl e, t1)
                   | (Inr _, t1) \<Rightarrow> (Inr (), t1))
           [start_line..end_line] s1)"

text \<open>
  The two methods call each other, so the nesting of calls is bounded only by the
  interpreter's recursion limit: the second argument is the number of nested calls of
  \<open>fold_or_unfold_headline_at_point\<close> the interpreter still allows, and at 0 the call
  raises. The parameter \<open>level\<close> is overwritten before it is read.
\<close>

primrec fold_or_unfold_headline_at_point ::
  "'v host \<Rightarrow> nat \<Rightarrow> int \<Rightarrow> int \<Rightarrow> 'v st \<Rightarrow> (error + bool) \<times> 'v st" where
  "fold_or_unfold_headline_at_point h 0 from_point level s = (Inl RecursionLimit, s)"
| "fold_or_unfold_headline_at_point h (Suc d) from_point level s =
     (case headline_and_level_at_point h (view s) from_point of
        None \<Rightarrow> (Inr False, s)
      | Some lvl \<Rightarrow>
          (if \<not> is_scope_headline h (view s) from_point then (Inr False, s)
           else
             (case region_of_content_of_headline_at_point h (view s) from_point of
                None \<Rightarrow> (Inr True, s)
              | Some content_region \<Rightarrow>
                  (if is_region_totally_folded h (view s) (Some content_region) then
                     (case unfold_yet_fold_subheads h (fold_or_unfold_headline_at_point h d)
                             content_region lvl s of
                        (Inl e, s1) \<Rightarrow> (Inl e, s1)
                      | (Inr _, s1) \<Rightarrow> (Inr True, s1))
                   else (Inr True, fold_region h content_region s)))))"

text \<open>The first loop of \<open>SmartFoldingCommand.run\<close>, with \<open>ever_matched\<close> as an argument.\<close>

fun match_selection ::
  "'v host \<Rightarrow> nat \<Rightarrow> region list \<Rightarrow> bool \<Rightarrow> 'v st \<Rightarrow> (error + bool) \<times> 'v st" where
  "match_selection h d [] ever_matched s = (Inr ever_matched, s)"
| "match_selection h d (region # rest) ever_matched s =
     (case fold_or_unfold_headline_at_point h d (region_a region) (ANY_LEVEL h) s of
        (Inl e, s1) \<Rightarrow> (Inl e, s1)
      | (Inr matched, s1) \<Rightarrow>
          match_selection h d rest (if matched then True else ever_matched) s1)"

definition insert_tab :: "'v host \<Rightarrow> region \<Rightarrow> 'v st \<Rightarrow> (error + unit) \<times> 'v st" where
  "insert_tab h r s = (Inr (), emit h (Show r) (emit h (Insert (region_a r) [CHR 0x09]) s))"

definition SmartFoldingCommand_run :: "'v host \<Rightarrow> nat \<Rightarrow> 'v st \<Rightarrow> (error + unit) \<times> 'v st" where
  "SmartFoldingCommand_run h d s =
     (case match_selection h d (sel h (view s)) False s of
        (Inl e, s1) \<Rightarrow> (Inl e, s1)
      | (Inr ever_matched, s1) \<Rightarrow>
          (if \<not> ever_matched then for_each (insert_tab h) (sel h (view s1)) s1
           else (Inr (), s1)))"

text \<open>
  The \<open>while\<close> loops of \<open>GlobalFoldingCommand\<close> run as long as the host keeps returning
  headlines, so they carry fuel: one unit per iteration, and \<open>None\<close> when it runs out.
  \<open>point\<close> is always an integer, so the test \<open>point is not None\<close> is always true.
\<close>

fun is_global_folded_while ::
  "'v host \<Rightarrow> 'v \<Rightarrow> nat \<Rightarrow> int \<Rightarrow> region option \<Rightarrow> bool option" where
  "is_global_folded_while h v 0 point region =
     (if \<not> truth h region then Some True else None)"
| "is_global_folded_while h v (Suc n) point region =
     (if \<not> truth h region then Some True
      else
        (let region = region_of_content_of_headline_at_point h v point;
             point = (if truth h region then region_b (the region) else point)
         in if \<not> is_region_totally_folded h v region then Some False
            else
              (let region = fst (find_headline h v point (ANY_LEVEL h) True True);
                   point = (if truth h region then region_a (the region) else point)
               in is_global_folded_while h v n point region)))"

definition is_global_folded :: "'v host \<Rightarrow> 'v \<Rightarrow> nat \<Rightarrow> bool option" where
  "is_global_folded h v fuel =
     (let region = fst (find_headline h v 0 (ANY_LEVEL h) True False)
      in if \<not> truth h region then Some True
         else is_global_folded_while h v fuel (region_a (the region)) region)"

definition unfold_all :: "'v host \<Rightarrow> 'v st \<Rightarrow> (error + unit) \<times> 'v st" where
  "unfold_all h s =
     (let s1 = emit h (Unfold (Region 0 (view_size h (view s)))) s
      in case sel h (view s1) of
           [] \<Rightarrow> (Inl IndexError, s1)
         | r # _ \<Rightarrow> (Inr (), emit h (Show r) s1))"

definition adjust_cursors_and_view :: "'v host \<Rightarrow> 'v st \<Rightarrow> 'v st" where
  "adjust_cursors_and_view h s =
     (let folded_regions = folded_regions h (view s);
          new_sel = map (\<lambda>r. case List.find (\<lambda>folded. region_contains h folded r) folded_regions of
                               Some folded \<Rightarrow> Region (region_b folded) (region_b folded)
                             | None \<Rightarrow> r)
                        (sel h (view s));
          s1 = emit h SelClear s
      in foldl (\<lambda>t r. emit h (Show r) (emit h (SelAdd r) t)) s1 new_sel)"

fun fold_all_while ::
  "'v host \<Rightarrow> nat \<Rightarrow> int \<Rightarrow> region option \<Rightarrow> 'v st \<Rightarrow> bool \<times> 'v st" where
  "fold_all_while h 0 point region s = (\<not> truth h region, s)"
| "fold_all_while h (Suc n) point region s =
     (if \<not> truth h region then (True, s)
      else
        (let region = region_of_content_of_headline_at_point h (view s) point;
             point = (if truth h region then region_b (the region) else point);
             s1 = (if truth h region then emit h (Fold (the region)) s else s);
             region = fst (find_headline h (view s1) point (ANY_LEVEL h) True True);
             point = (if truth h region then region_a (the region) else point)
         in fold_all_while h n point region s1))"

text \<open>
  \<open>fold_all\<close> reads \<open>region.a\<close> without a test, which raises when no headline was found.
  The first component of the result is \<open>None\<close> when the loop ran out of fuel.
\<close>

definition fold_all :: "'v host \<Rightarrow> nat \<Rightarrow> 'v st \<Rightarrow> (error + unit) option \<times> 'v st" where
  "fold_all h fuel s =
     (case fst (find_headline h (view s) 0 (ANY_LEVEL h) True False) of
        None \<Rightarrow> (Some (Inl NoneError), s)
      | Some r \<Rightarrow>
          (case fold_all_while h fuel (region_a r) (Some r) s of
             (False, s1) \<Rightarrow> (None, s1)
           | (True, s1) \<Rightarrow> (Some (Inr ()), adjust_cursors_and_view h s1)))"

definition GlobalFoldingCommand_run :: "'v host \<Rightarrow> nat \<Rightarrow> 'v st \<Rightarrow> (error + unit) option \<times> 'v st" where
  "GlobalFoldingCommand_run h fuel s =
     (case is_global_folded h (view s) fuel of
        None \<Rightarrow> (None, s)
      | Some True \<Rightarrow> (case unfold_all h s of (r, s1) \<Rightarrow> (Some r, s1))
      | Some False \<Rightarrow> fold_all h fuel s)"

section \<open>Vocabulary of the properties\<close>

text \<open>A selection point lies on a headline when the two tests of the source's guard pass.\<close>

definition headline_at :: "'v host \<Rightarrow> 'v \<Rightarrow> int \<Rightarrow> bool" where
  "headline_at h v p =
     (headline_and_level_at_point h v p \<noteq> None \<and> is_scope_headline h v p)"

fun is_mutation :: "event \<Rightarrow> bool" where
  "is_mutation (Insert p s) = True"
| "is_mutation (Fold r) = True"
| "is_mutation (Unfold r) = True"
| "is_mutation SelClear = True"
| "is_mutation (SelAdd r) = True"
| "is_mutation _ = False"

fun is_insert :: "event \<Rightarrow> bool" where
  "is_insert (Insert p s) = True"
| "is_insert _ = False"

fun is_fold_event :: "event \<Rightarrow> bool" where
  "is_fold_event (Fold r) = True"
| "is_fold_event (Unfold r) = True"
| "is_fold_event _ = False"

fun editor_call :: "event \<Rightarrow> bool" where
  "editor_call (Show r) = True"
| "editor_call e = is_mutation e"

fun subprocess_cmds :: "event list \<Rightarrow> string list list" where
  "subprocess_cmds [] = []"
| "subprocess_cmds (SubprocessCall cmd # es) = cmd # subprocess_cmds es"
| "subprocess_cmds (e # es) = subprocess_cmds es"

text \<open>
  \<open>steps h P s t\<close>: the log of \<open>t\<close> extends the log of \<open>s\<close>, every added event satisfies
  \<open>P\<close>, and the view of \<open>t\<close> is the view of \<open>s\<close> after the added events in their order.
\<close>

definition steps :: "'v host \<Rightarrow> (event \<Rightarrow> bool) \<Rightarrow> 'v st \<Rightarrow> 'v st \<Rightarrow> bool" where
  "steps h P s t =
     (take (length (log s)) (log t) = log s \<and>
      list_all P (drop (length (log s)) (log t)) \<and>
      view t = replay h (drop (length (log s)) (log t)) (view s))"

text \<open>The events a run added to the log.\<close>

definition added :: "'v st \<Rightarrow> 'v st \<Rightarrow> event list" where
  "added s t = drop (length (log s)) (log t)"

definition initial :: "'v \<Rightarrow> 'v st" where
  "initial v = \<lparr>view = v, log = []\<rparr>"

text \<open>
  What the loops of \<open>GlobalFoldingCommand\<close> need from the absent module \<open>headline\<close> and from
  the host in order to move forward: a search that skips the headline at the point finds a
  headline that starts strictly after the point and inside the buffer; the first search
  finds one inside the buffer; a content region does not end before the headline it
  belongs to; folding does not change the size of the buffer.
\<close>

definition advances :: "'v host \<Rightarrow> bool" where
  "advances h =
     ((\<forall>v p r. fst (find_headline h v p (ANY_LEVEL h) True True) = Some r
          \<longrightarrow> p < region_a r \<and> region_a r \<le> view_size h v) \<and>
      (\<forall>v r. fst (find_headline h v 0 (ANY_LEVEL h) True False) = Some r
          \<longrightarrow> 0 \<le> region_a r \<and> region_a r \<le> view_size h v) \<and>
      (\<forall>v p r. region_of_content_of_headline_at_point h v p = Some r \<longrightarrow> p \<le> region_b r) \<and>
      (\<forall>v r. view_size h (view_fold h r v) = view_size h v))"

text \<open>The state of \<open>PandocRenderCommand.run\<close> once the buffer is in its temporary file.\<close>

definition written :: "'v host \<Rightarrow> os \<Rightarrow> 'v st \<Rightarrow> 'v st" where
  "written h w s =
     emit h (WriteFile (tmp_name w 0 @ ''.md'') (substr h (view s) (Region 0 (view_size h (view s)))))
       (emit h (CreateTemp (tmp_name w 0 @ ''.md'') ''.md'') s)"

text \<open>The events of \<open>open_result\<close>, as a list.\<close>

definition opener :: "os \<Rightarrow> string \<Rightarrow> string \<Rightarrow> event list" where
  "opener w outfile target =
     (if target = ''html'' then [OpenNewTab outfile]
      else if platform w = ''windows'' then [StartFile outfile]
      else if platform w = ''osx'' then [SubprocessCall [''open'', outfile]]
      else if platform w = ''linux'' then [SubprocessCall [''xdg-open'', outfile]]
      else [])"

text \<open>The commands a run may start, and the one that is the converter.\<close>

definition started :: "string list \<Rightarrow> bool" where
  "started cmd = (hd cmd \<in> set [''pandoc'', ''open'', ''xdg-open''])"

definition is_pandoc :: "string list \<Rightarrow> bool" where
  "is_pandoc cmd = (hd cmd = ''pandoc'')"

section \<open>A small host, for running the model\<close>

text \<open>
  A buffer of six lines of ten characters (the newline included) with a headline on lines
  0 and 3; the content of the first headline is lines 1 and 2, the content of the second
  lines 4 and 5. Folds are kept in a list, a fold is added at its end, and unfolding a
  region removes the folds inside it.
\<close>

record example_view =
  ex_text :: string
  ex_sel :: "region list"
  ex_folded :: "region list"
  ex_name :: "string option"

definition example_contains :: "region \<Rightarrow> region \<Rightarrow> bool" where
  "example_contains x y =
     (min (region_a x) (region_b x) \<le> min (region_a y) (region_b y) \<and>
      max (region_a y) (region_b y) \<le> max (region_a x) (region_b x))"

definition example_headline :: "int \<Rightarrow> bool" where
  "example_headline p = ((0 \<le> p \<and> p < 10) \<or> (30 \<le> p \<and> p < 40))"

definition example_find :: "int \<Rightarrow> int \<Rightarrow> bool \<Rightarrow> (region option \<times> int option)" where
  "example_find n p skip =
     (if skip then (if p < 30 \<and> 30 \<le> n then (Some (Region 30 39), Some 1) else (None, None))
      else if p \<le> 0 \<and> 0 \<le> n then (Some (Region 0 9), Some 1)
      else if p \<le> 30 \<and> 30 \<le> n then (Some (Region 30 39), Some 1)
      else (None, None))"

definition example_host :: "example_view host" where
  "example_host =
     \<lparr>sel = ex_sel,
      folded_regions = ex_folded,
      rowcol = (\<lambda>v p. (p div 10, p mod 10)),
      text_point = (\<lambda>v row col. row * 10 + col),
      view_size = (\<lambda>v. int (length (ex_text v))),
      substr = (\<lambda>v r. take (nat (region_b r) - nat (region_a r)) (drop (nat (region_a r)) (ex_text v))),
      encoding = (\<lambda>v. ''UTF-8''),
      file_name = ex_name,
      view_insert = (\<lambda>p s v. v\<lparr>ex_text := take (nat p) (ex_text v) @ s @ drop (nat p) (ex_text v)\<rparr>),
      view_fold = (\<lambda>r v. v\<lparr>ex_folded := ex_folded v @ [r]\<rparr>),
      view_unfold = (\<lambda>r v. v\<lparr>ex_folded := filter (\<lambda>f. \<not> example_contains r f) (ex_folded v)\<rparr>),
      sel_clear = (\<lambda>v. v\<lparr>ex_sel := []\<rparr>),
      sel_add = (\<lambda>r v. v\<lparr>ex_sel := ex_sel v @ [r]\<rparr>),
      region_contains = example_contains,
      region_truthy = (\<lambda>r. True),
      ANY_LEVEL = 0,
      headline_and_level_at_point = (\<lambda>v p. if example_headline p then Some 1 else None),
      is_scope_headline = (\<lambda>v p. example_headline p),
      region_of_content_of_headline_at_point =
        (\<lambda>v p. if 0 \<le> p \<and> p < 10 then Some (Region 10 29)
               else if 30 \<le> p \<and> p < 40 then Some (Region 40 59)
               else None),
      find_headline = (\<lambda>v p level forward skip. example_find (int (length (ex_text v))) p skip)\<rparr>"

definition example_text :: string where
  "example_text =
     ''# Heading'' @ [CHR 0x0A] @ ''body text'' @ [CHR 0x0A] @ ''more text'' @ [CHR 0x0A] @
     ''# Another'' @ [CHR 0x0A] @ ''body text'' @ [CHR 0x0A] @ ''last line'' @ [CHR 0x0A]"

definition example_buffer :: "region list \<Rightarrow> region list \<Rightarrow> example_view" where
  "example_buffer cursors folds =
     \<lparr>ex_text = example_text, ex_sel = cursors, ex_folded = folds, ex_name = None\<rparr>"

definition example_os :: os where
  "example_os =
     \<lparr>platform = ''linux'',
      tmp_name = (\<lambda>k. if k = 0 then ''/tmp/tmpA'' else ''/tmp/tmpB''),
      splitext = (\<lambda>p. (takeWhile (\<lambda>c. c \<noteq> CHR ''.'') p, dropWhile (\<lambda>c. c \<noteq> CHR ''.'') p)),
      call_error = (\<lambda>cmd. None)\<rparr>"

section \<open>Basic facts about the log\<close>

lemma apply_event_other [simp]:
  "\<not> is_mutation e \<Longrightarrow> apply_event h e v = v"
  by (cases e) simp_all

lemma log_emit [simp]: "log (emit h e s) = log s @ [e]"
  by (simp add: emit_def)

lemma view_emit [simp]: "view (emit h e s) = apply_event h e (view s)"
  by (simp add: emit_def)

lemma subprocess_cmds_append [simp]:
  "subprocess_cmds (xs @ ys) = subprocess_cmds xs @ subprocess_cmds ys"
  by (induction xs rule: subprocess_cmds.induct) simp_all

section \<open>The conversion command, path by path\<close>

lemma run_pandoc_Inr [simp]: "fst (run_pandoc h w i out (Some xs) s) = Inr ()"
  by (simp add: run_pandoc_def Let_def split: option.split)

lemma open_result_not_exception [simp]: "fst (open_result h w out t s) \<noteq> Inl (Exception m)"
  by (simp add: open_result_def subprocess_call_def Let_def split: option.split)

lemma pandoc_args_supported:
  "t \<in> set [''html'', ''docx'', ''pdf''] \<Longrightarrow> \<exists>xs. pandoc_args t = Some xs"
  by (auto simp: pandoc_args_def)

lemma convert_not_exception:
  "t \<in> set [''html'', ''docx'', ''pdf''] \<Longrightarrow> fst (convert h w t oa i out s) \<noteq> Inl (Exception m)"
proof -
  assume "t \<in> set [''html'', ''docx'', ''pdf'']"
  then obtain xs where xs: "pandoc_args t = Some xs" using pandoc_args_supported by blast
  obtain s1 where s1: "run_pandoc h w i out (Some xs) s = (Inr (), s1)"
    by (metis run_pandoc_Inr prod.collapse)
  show ?thesis by (simp add: convert_def xs s1)
qed

lemma msg_distinct:
  "''Please safe the buffer before trying to export with pandoc.'' \<noteq> ''Format '' @ t @ m"
  by simp

lemma view_written [simp]: "view (written h w s) = view s"
  by (simp add: written_def)

lemma log_written [simp]:
  "log (written h w s) = log s @
     [CreateTemp (tmp_name w 0 @ ''.md'') ''.md'',
      WriteFile (tmp_name w 0 @ ''.md'') (substr h (view s) (Region 0 (view_size h (view s))))]"
  by (simp add: written_def)

lemma run_unsupported:
  "t \<notin> set [''html'', ''docx'', ''pdf''] \<Longrightarrow>
   PandocRenderCommand_run h w t oa sr aa s =
     (Inl (Exception (''Format '' @ t @ '' currently unsopported'')), s)"
  by (simp add: PandocRenderCommand_run_def)

lemma run_no_name:
  "t \<in> set [''html'', ''docx'', ''pdf''] \<Longrightarrow> file_name h (view s) = None \<Longrightarrow>
   PandocRenderCommand_run h w t oa True aa s = (Inl NoneError, written h w s)"
  by (simp add: PandocRenderCommand_run_def written_def Let_def)

lemma run_empty_name:
  "t \<in> set [''html'', ''docx'', ''pdf''] \<Longrightarrow> file_name h (view s) = Some [] \<Longrightarrow>
   PandocRenderCommand_run h w t oa True aa s =
     (Inl (Exception ''Please safe the buffer before trying to export with pandoc.''), written h w s)"
  by (simp add: PandocRenderCommand_run_def written_def Let_def)

lemma run_save:
  "t \<in> set [''html'', ''docx'', ''pdf''] \<Longrightarrow> file_name h (view s) = Some f \<Longrightarrow> f \<noteq> [] \<Longrightarrow>
   PandocRenderCommand_run h w t oa True aa s =
     convert h w t oa (tmp_name w 0 @ ''.md'') (fst (splitext w f) @ ''.'' @ t) (written h w s)"
  by (simp add: PandocRenderCommand_run_def written_def Let_def)

lemma run_temp:
  "t \<in> set [''html'', ''docx'', ''pdf''] \<Longrightarrow>
   PandocRenderCommand_run h w t oa False aa s =
     convert h w t oa (tmp_name w 0 @ ''.md'') (tmp_name w 1 @ ''.'' @ t)
       (emit h (CreateTemp (tmp_name w 1 @ ''.'' @ t) (''.'' @ t)) (written h w s))"
  by (simp add: PandocRenderCommand_run_def written_def Let_def)

lemma supported_not_format_exception:
  assumes t: "t \<in> set [''html'', ''docx'', ''pdf'']"
  shows "fst (PandocRenderCommand_run h w t oa sr aa s) \<noteq>
           Inl (Exception (''Format '' @ t @ '' currently unsopported''))"
proof (cases sr)
  case False
  then show ?thesis by (simp add: run_temp [OF t] convert_not_exception [OF t])
next
  case True
  show ?thesis
  proof (cases "file_name h (view s)")
    case None
    then show ?thesis using True by (simp add: run_no_name [OF t])
  next
    case (Some f)
    show ?thesis
    proof (cases "f = []")
      case True
      then show ?thesis using Some \<open>sr\<close> by (simp add: run_empty_name [OF t])
    next
      case False
      then show ?thesis using Some \<open>sr\<close> by (simp add: run_save [OF t] convert_not_exception [OF t])
    qed
  qed
qed

section \<open>Claims about the format check and the command line\<close>

text \<open>
  C3. The conversion command is a fixed mapping from the target to a pandoc argument list:
  \<open>pandoc_args\<close> returns the empty list for "pdf", \<open>-t html5\<close> for "html" and \<open>-t docx\<close>
  for "docx", and \<open>run_pandoc\<close> makes exactly one subprocess call, of the command
  \<open>pandoc\<close>, then the arguments, then the input file, \<open>-o\<close> and the output file.
\<close>

theorem pandoc_command_line:
  "pandoc_args ''pdf'' = Some [] \<and>
   pandoc_args ''html'' = Some [''-t'', ''html5''] \<and>
   pandoc_args ''docx'' = Some [''-t'', ''docx''] \<and>
   subprocess_cmds (log (snd (run_pandoc h w infile outfile (Some args) s))) =
     subprocess_cmds (log s) @ [[''pandoc''] @ args @ [infile, ''-o'', outfile]]"
  by (simp add: pandoc_args_def run_pandoc_def Let_def split: option.split)

theorem pandoc_command_line_witness:
  "subprocess_cmds (log (snd (run_pandoc example_host example_os ''in.md'' ''out.html''
      (pandoc_args ''html'') (initial (example_buffer [] []))))) =
     [[''pandoc'', ''-t'', ''html5'', ''in.md'', ''-o'', ''out.html'']]"
  using pandoc_command_line [of example_host example_os "''in.md''" "''out.html''" "[''-t'', ''html5'']"
      "initial (example_buffer [] [])"]
  by (simp add: initial_def)

text \<open>
  C2, as the code has it. \<open>PandocRenderCommand.run\<close> raises the exception "Format ...
  currently unsopported" if and only if the target is not one of "html", "docx", "pdf";
  in that case it is raised before any temporary file is written and before pandoc is
  invoked (the state and its log are untouched), and for each of the three supported
  targets that exception is not raised. A supported target can still end in another
  exception.
\<close>

theorem unsupported_format:
  "(fst (PandocRenderCommand_run h w target openAfter saveResult additionalArguments s) =
      Inl (Exception (''Format '' @ target @ '' currently unsopported'')))
     = (target \<notin> set [''html'', ''docx'', ''pdf'']) \<and>
   (target \<notin> set [''html'', ''docx'', ''pdf''] \<longrightarrow>
      snd (PandocRenderCommand_run h w target openAfter saveResult additionalArguments s) = s)"
proof (cases "target \<in> set [''html'', ''docx'', ''pdf'']")
  case True
  then show ?thesis using supported_not_format_exception [OF True] by blast
next
  case False
  have "PandocRenderCommand_run h w target openAfter saveResult additionalArguments s =
     (Inl (Exception (''Format '' @ target @ '' currently unsopported'')), s)"
    by (rule run_unsupported [OF False])
  with False show ?thesis by (simp only: fst_conv snd_conv simp_thms)
qed

theorem unsupported_format_witness:
  "PandocRenderCommand_run example_host example_os ''odt'' True False []
      (initial (example_buffer [] [])) =
     (Inl (Exception ''Format odt currently unsopported''), initial (example_buffer [] []))"
  using unsupported_format [of example_host example_os "''odt''" True False "[]"
      "initial (example_buffer [] [])"]
  by (simp add: prod_eq_iff)

text \<open>
  C2, as the specification states it: "raises an exception if and only if the target is not one
  of html, docx, pdf". With the supported target "pdf", \<open>saveResult\<close> set and a view
  that has no file name, the run raises.
\<close>

theorem raise_iff_unsupported_counterexample:
  "isl (fst (PandocRenderCommand_run example_host example_os ''pdf'' True True []
        (initial (example_buffer [] [])))) \<noteq> (''pdf'' \<notin> set [''html'', ''docx'', ''pdf''])"
proof -
  have "file_name example_host (view (initial (example_buffer [] []))) = None"
    by (simp add: example_host_def example_buffer_def initial_def)
  then show ?thesis by (simp add: run_no_name)
qed

section \<open>The log of the conversion command\<close>

lemma added_self [simp]: "added s s = []"
  by (simp add: added_def)

lemma added_append: "log t = log s @ es \<Longrightarrow> added s t = es"
  by (simp add: added_def)

lemma log_subprocess_call: "log (snd (subprocess_call h w cmd s)) = log s @ [SubprocessCall cmd]"
  by (simp add: subprocess_call_def Let_def split: option.split)

lemma log_open_result: "log (snd (open_result h w out t s)) = log s @ opener w out t"
  unfolding open_result_def opener_def
  by (simp only: log_subprocess_call log_emit snd_conv if_distrib [of snd] if_distrib [of log]
        if_distrib [of "(@) (log s)"] append_Nil2 cong: if_cong)

lemma log_run_pandoc:
  "log (snd (run_pandoc h w i out (Some xs) s)) =
     log s @ SubprocessCall ([''pandoc''] @ xs @ [i, ''-o'', out]) #
       (case call_error w ([''pandoc''] @ xs @ [i, ''-o'', out]) of
          None \<Rightarrow> []
        | Some e \<Rightarrow> [ErrorMessage (''Unable to execute Pandoc.  '' @ [CHR 0x0A, CHR 0x0A] @ ''Details: '' @ e)])"
  by (simp add: run_pandoc_def Let_def split: option.split)

lemma convert_eq:
  assumes "pandoc_args t = Some xs"
  shows "snd (convert h w t oa i out s) =
     (if oa then snd (open_result h w out t (snd (run_pandoc h w i out (Some xs) s)))
      else snd (run_pandoc h w i out (Some xs) s))"
proof -
  obtain s1 where s1: "run_pandoc h w i out (Some xs) s = (Inr (), s1)"
    by (metis run_pandoc_Inr prod.collapse)
  show ?thesis by (simp only: convert_def assms s1 Let_def prod.case sum.case snd_conv if_distrib [of snd] cong: if_cong)
qed

lemma log_convert:
  assumes "pandoc_args t = Some xs"
  shows "log (snd (convert h w t oa i out s)) =
     log s @ SubprocessCall ([''pandoc''] @ xs @ [i, ''-o'', out]) #
       (case call_error w ([''pandoc''] @ xs @ [i, ''-o'', out]) of
          None \<Rightarrow> []
        | Some e \<Rightarrow> [ErrorMessage (''Unable to execute Pandoc.  '' @ [CHR 0x0A, CHR 0x0A] @ ''Details: '' @ e)])
       @ (if oa then opener w out t else [])"
proof (cases oa)
  case True
  then show ?thesis
    by (simp only: convert_eq [OF assms] if_True log_open_result log_run_pandoc append_assoc append_Cons)
next
  case False
  then show ?thesis
    by (simp only: convert_eq [OF assms] if_False log_run_pandoc append_Nil2)
qed

lemma apply_event_encoding [simp]: "apply_event (h\<lparr>encoding := enc\<rparr>) e v = apply_event h e v"
  by (cases e) simp_all

lemma emit_encoding [simp]: "emit (h\<lparr>encoding := enc\<rparr>) e s = emit h e s"
  by (simp add: emit_def)

lemma written_encoding [simp]: "written (h\<lparr>encoding := enc\<rparr>) w s = written h w s"
  by (simp add: written_def)

lemma run_pandoc_encoding [simp]:
  "run_pandoc (h\<lparr>encoding := enc\<rparr>) w i out args s = run_pandoc h w i out args s"
  by (simp add: run_pandoc_def Let_def split: option.split)

lemma subprocess_call_encoding [simp]:
  "subprocess_call (h\<lparr>encoding := enc\<rparr>) w cmd s = subprocess_call h w cmd s"
  by (simp add: subprocess_call_def Let_def split: option.split)

lemma open_result_encoding [simp]:
  "open_result (h\<lparr>encoding := enc\<rparr>) w out t s = open_result h w out t s"
  unfolding open_result_def by (simp only: emit_encoding subprocess_call_encoding)

lemma convert_encoding [simp]:
  "convert (h\<lparr>encoding := enc\<rparr>) w t oa i out s = convert h w t oa i out s"
  unfolding convert_def by (simp only: run_pandoc_encoding open_result_encoding)

lemma run_paths [case_names unsupported no_name empty_name save temp]:
  assumes "t \<notin> set [''html'', ''docx'', ''pdf''] \<Longrightarrow> P"
    and "t \<in> set [''html'', ''docx'', ''pdf''] \<Longrightarrow> sr \<Longrightarrow> file_name h (view s) = None \<Longrightarrow> P"
    and "t \<in> set [''html'', ''docx'', ''pdf''] \<Longrightarrow> sr \<Longrightarrow> file_name h (view s) = Some [] \<Longrightarrow> P"
    and "\<And>f. t \<in> set [''html'', ''docx'', ''pdf''] \<Longrightarrow> sr \<Longrightarrow> file_name h (view s) = Some f \<Longrightarrow> f \<noteq> [] \<Longrightarrow> P"
    and "t \<in> set [''html'', ''docx'', ''pdf''] \<Longrightarrow> \<not> sr \<Longrightarrow> P"
  shows P
proof (cases "t \<in> set [''html'', ''docx'', ''pdf'']")
  case False
  then show ?thesis by (rule assms(1))
next
  case t: True
  show ?thesis
  proof (cases sr)
    case False
    with t show ?thesis by (rule assms(5))
  next
    case True
    show ?thesis
    proof (cases "file_name h (view s)")
      case None
      with t True show ?thesis by (rule assms(2))
    next
      case (Some f)
      show ?thesis
      proof (cases "f = []")
        case True
        with t \<open>sr\<close> Some show ?thesis using assms(3) by simp
      next
        case False
        with t \<open>sr\<close> Some show ?thesis by (rule assms(4))
      qed
    qed
  qed
qed

lemma run_encoding:
  "PandocRenderCommand_run (h\<lparr>encoding := enc\<rparr>) w t oa sr aa s =
   PandocRenderCommand_run h w t oa sr aa s"
proof (rule run_paths [of t _ sr h s], goal_cases unsupported no_name empty_name save temp)
  case unsupported
  show ?case by (simp only: run_unsupported [OF unsupported])
next
  case no_name
  have "file_name (h\<lparr>encoding := enc\<rparr>) (view s) = None" using no_name by simp
  then show ?case
    using no_name by (simp only: run_no_name [OF no_name(1)] written_encoding)
next
  case empty_name
  have "file_name (h\<lparr>encoding := enc\<rparr>) (view s) = Some []" using empty_name by simp
  then show ?case
    using empty_name by (simp only: run_empty_name [OF empty_name(1)] written_encoding)
next
  case (save f)
  have n: "file_name (h\<lparr>encoding := enc\<rparr>) (view s) = Some f" using save by simp
  show ?case
    using save(2)
    by (simp only: run_save [OF save(1) n save(4)] run_save [OF save(1) save(3) save(4)]
          written_encoding convert_encoding)
next
  case temp
  then show ?case
    by (simp only: run_temp [OF temp(1)] written_encoding convert_encoding emit_encoding)
qed

lemma added_written:
  "added s (written h w s) =
     [CreateTemp (tmp_name w 0 @ ''.md'') ''.md'',
      WriteFile (tmp_name w 0 @ ''.md'') (substr h (view s) (Region 0 (view_size h (view s))))]"
  by (rule added_append) simp

lemma added_convert_written:
  assumes "pandoc_args t = Some xs"
  shows "added s (snd (convert h w t oa (tmp_name w 0 @ ''.md'') out (written h w s))) =
     [CreateTemp (tmp_name w 0 @ ''.md'') ''.md'',
      WriteFile (tmp_name w 0 @ ''.md'') (substr h (view s) (Region 0 (view_size h (view s)))),
      SubprocessCall ([''pandoc''] @ xs @ [tmp_name w 0 @ ''.md'', ''-o'', out])] @
     (case call_error w ([''pandoc''] @ xs @ [tmp_name w 0 @ ''.md'', ''-o'', out]) of
          None \<Rightarrow> []
        | Some e \<Rightarrow> [ErrorMessage (''Unable to execute Pandoc.  '' @ [CHR 0x0A, CHR 0x0A] @ ''Details: '' @ e)])
       @ (if oa then opener w out t else [])"
  by (rule added_append) (simp only: log_convert [OF assms] log_written append_assoc append_Cons append_Nil)

lemma added_convert_temp:
  assumes "pandoc_args t = Some xs"
  shows "added s (snd (convert h w t oa (tmp_name w 0 @ ''.md'') out
            (emit h (CreateTemp out suffix) (written h w s)))) =
     [CreateTemp (tmp_name w 0 @ ''.md'') ''.md'',
      WriteFile (tmp_name w 0 @ ''.md'') (substr h (view s) (Region 0 (view_size h (view s)))),
      CreateTemp out suffix,
      SubprocessCall ([''pandoc''] @ xs @ [tmp_name w 0 @ ''.md'', ''-o'', out])] @
     (case call_error w ([''pandoc''] @ xs @ [tmp_name w 0 @ ''.md'', ''-o'', out]) of
          None \<Rightarrow> []
        | Some e \<Rightarrow> [ErrorMessage (''Unable to execute Pandoc.  '' @ [CHR 0x0A, CHR 0x0A] @ ''Details: '' @ e)])
       @ (if oa then opener w out t else [])"
  by (rule added_append)
     (simp only: log_convert [OF assms] log_written log_emit append_assoc append_Cons append_Nil)

lemma subprocess_cmds_head:
  "\<not> (\<exists>c. e1 = SubprocessCall c) \<Longrightarrow> \<not> (\<exists>c. e2 = SubprocessCall c) \<Longrightarrow>
   take 1 (subprocess_cmds ([e1, e2, SubprocessCall cmd] @ rest)) = [cmd]"
  by (cases e1; cases e2) simp_all

lemma example_no_name:
  "file_name example_host (view (initial (example_buffer cs fs))) = None"
  by (simp add: example_host_def example_buffer_def initial_def)

lemma example_contents:
  "substr example_host (view (initial (example_buffer cs fs)))
     (Region 0 (view_size example_host (view (initial (example_buffer cs fs))))) = example_text"
  by (simp add: example_host_def example_buffer_def initial_def example_text_def)

lemma example_tmp: "tmp_name example_os 0 = ''/tmp/tmpA''" "tmp_name example_os 1 = ''/tmp/tmpB''"
  by (simp_all add: example_os_def)

section \<open>Claims about the exported buffer and the unsaved buffer\<close>






section \<open>Every effect goes through the log: frame and subprocess claims\<close>

lemma replay_Nil [simp]: "replay h [] v = v"
  by (simp add: replay_def)

lemma replay_append [simp]: "replay h (xs @ ys) v = replay h ys (replay h xs v)"
  by (simp add: replay_def)

lemma replay_single [simp]: "replay h [e] v = apply_event h e v"
  by (simp add: replay_def)

lemma replay_filter: "replay h (filter is_mutation es) v = replay h es v"
  by (induction es arbitrary: v rule: rev_induct) simp_all

lemma stepsI:
  "log t = log s @ es \<Longrightarrow> list_all P es \<Longrightarrow> view t = replay h es (view s) \<Longrightarrow> steps h P s t"
  by (simp add: steps_def)

lemma stepsD:
  assumes "steps h P s t"
  shows "log t = log s @ added s t" and "list_all P (added s t)"
    and "view t = replay h (added s t) (view s)"
proof -
  from assms have "take (length (log s)) (log t) = log s" by (simp add: steps_def)
  then show "log t = log s @ added s t"
    by (metis added_def append_take_drop_id)
  from assms show "list_all P (added s t)" by (simp add: steps_def added_def)
  from assms show "view t = replay h (added s t) (view s)" by (simp add: steps_def added_def)
qed

lemma steps_refl [simp]: "steps h P s s"
  by (simp add: steps_def)

lemma steps_emit: "P e \<Longrightarrow> steps h P s (emit h e s)"
  by (rule stepsI [where es = "[e]"]) simp_all

lemma steps_trans:
  assumes "steps h P s t" and "steps h P t u"
  shows "steps h P s u"
proof (rule stepsI [where es = "added s t @ added t u"])
  show "log u = log s @ added s t @ added t u"
    using stepsD(1) [OF assms(1)] stepsD(1) [OF assms(2)] by simp
  show "list_all P (added s t @ added t u)"
    using stepsD(2) [OF assms(1)] stepsD(2) [OF assms(2)] by simp
  show "view u = replay h (added s t @ added t u) (view s)"
    using stepsD(3) [OF assms(1)] stepsD(3) [OF assms(2)] by simp
qed

lemma steps_mono:
  assumes "steps h P s t" and "\<And>e. P e \<Longrightarrow> Q e"
  shows "steps h Q s t"
proof (rule stepsI [where es = "added s t"])
  show "log t = log s @ added s t" by (rule stepsD(1) [OF assms(1)])
  show "list_all Q (added s t)"
    using stepsD(2) [OF assms(1)] assms(2) by (simp add: list_all_iff)
  show "view t = replay h (added s t) (view s)" by (rule stepsD(3) [OF assms(1)])
qed

lemma steps_for_each:
  assumes "\<And>i t. steps h P t (snd (body i t))"
  shows "steps h P s (snd (for_each body xs s))"
proof (induction xs arbitrary: s)
  case Nil
  show ?case by simp
next
  case (Cons i xs)
  obtain r t where b: "body i s = (r, t)" by (cases "body i s")
  have st: "steps h P s t" using assms [of s i] by (simp add: b)
  show ?case
  proof (cases r)
    case (Inl e)
    then show ?thesis using st by (simp add: b)
  next
    case (Inr u)
    then show ?thesis using steps_trans [OF st Cons.IH [of t]] by (simp add: b)
  qed
qed

lemma fold_event_editor_call: "is_fold_event e \<Longrightarrow> editor_call e"
  by (cases e) simp_all

lemma steps_unfold_yet:
  assumes "\<And>p l t. steps h is_fold_event t (snd (self p l t))"
  shows "steps h is_fold_event s (snd (unfold_yet_fold_subheads h self region level s))"
proof -
  have body: "\<And>i t. steps h is_fold_event t
      (snd (case self (text_point h (view t) i 0) (level + 1) t of
              (Inl e, t1) \<Rightarrow> (Inl e, t1) | (Inr _, t1) \<Rightarrow> (Inr (), t1)))"
  proof -
    fix i t
    obtain r t1 where c: "self (text_point h (view t) i 0) (level + 1) t = (r, t1)"
      by (cases "self (text_point h (view t) i 0) (level + 1) t")
    have "steps h is_fold_event t t1" using assms [of t "text_point h (view t) i 0" "level + 1"]
      by (simp add: c)
    then show "steps h is_fold_event t
      (snd (case self (text_point h (view t) i 0) (level + 1) t of
              (Inl e, t1) \<Rightarrow> (Inl e, t1) | (Inr _, t1) \<Rightarrow> (Inr (), t1)))"
      by (cases r) (simp_all add: c)
  qed
  have "steps h is_fold_event s (emit h (Unfold region) s)" by (rule steps_emit) simp
  then show ?thesis
    unfolding unfold_yet_fold_subheads_def Let_def
    by (rule steps_trans) (rule steps_for_each, rule body)
qed

lemma steps_fold_or_unfold:
  "steps h is_fold_event s (snd (fold_or_unfold_headline_at_point h d p l s))"
proof (induction d arbitrary: p l s)
  case 0
  show ?case by simp
next
  case (Suc d)
  have u: "steps h is_fold_event s t"
    if "unfold_yet_fold_subheads h (fold_or_unfold_headline_at_point h d) r lvl s = (res, t)"
    for r lvl res t
  proof -
    have "steps h is_fold_event s
            (snd (unfold_yet_fold_subheads h (fold_or_unfold_headline_at_point h d) r lvl s))"
      by (rule steps_unfold_yet) (rule Suc.IH)
    then show ?thesis by (simp add: that)
  qed
  have f: "\<And>r. steps h is_fold_event s (fold_region h r s)"
    unfolding fold_region_def by (rule steps_emit) simp
  show ?case
    using u f
    by (auto split: option.split prod.split sum.split)
qed

lemma steps_match_selection:
  "steps h is_fold_event s (snd (match_selection h d rs ever s))"
proof (induction rs arbitrary: ever s)
  case Nil
  show ?case by simp
next
  case (Cons r rs)
  obtain res t where c: "fold_or_unfold_headline_at_point h d (region_a r) (ANY_LEVEL h) s = (res, t)"
    by (cases "fold_or_unfold_headline_at_point h d (region_a r) (ANY_LEVEL h) s")
  have st: "steps h is_fold_event s t"
    using steps_fold_or_unfold [of h s d "region_a r" "ANY_LEVEL h"] by (simp add: c)
  show ?case
  proof (cases res)
    case (Inl e)
    then show ?thesis using st by (simp add: c)
  next
    case (Inr m)
    then show ?thesis
      using steps_trans [OF st Cons.IH [of t "if m then True else ever"]] by (simp add: c)
  qed
qed

lemma steps_insert_tab: "steps h editor_call s (snd (insert_tab h r s))"
proof -
  have "steps h editor_call s (emit h (Insert (region_a r) [CHR 0x09]) s)"
    by (rule steps_emit) simp
  moreover have "steps h editor_call (emit h (Insert (region_a r) [CHR 0x09]) s)
      (emit h (Show r) (emit h (Insert (region_a r) [CHR 0x09]) s))"
    by (rule steps_emit) simp
  ultimately show ?thesis by (simp add: insert_tab_def steps_trans)
qed

lemma steps_SmartFoldingCommand_run:
  "steps h editor_call s (snd (SmartFoldingCommand_run h d s))"
proof -
  obtain res t where m: "match_selection h d (sel h (view s)) False s = (res, t)"
    by (cases "match_selection h d (sel h (view s)) False s")
  have "steps h is_fold_event s t"
    using steps_match_selection [of h s d "sel h (view s)" False] by (simp add: m)
  then have st: "steps h editor_call s t" by (rule steps_mono) (rule fold_event_editor_call)
  have tabs: "steps h editor_call t (snd (for_each (insert_tab h) (sel h (view t)) t))"
    by (rule steps_for_each) (rule steps_insert_tab)
  show ?thesis
  proof (cases res)
    case (Inl e)
    then show ?thesis using st by (simp add: SmartFoldingCommand_run_def m)
  next
    case (Inr ever)
    then show ?thesis
      using st steps_trans [OF st tabs] by (simp add: SmartFoldingCommand_run_def m)
  qed
qed

lemma steps_fold_all_while:
  "steps h is_fold_event s (snd (fold_all_while h n point region s))"
proof (induction n arbitrary: point region s)
  case 0
  show ?case by simp
next
  case (Suc n)
  show ?case
  proof (cases "truth h region")
    case False
    then show ?thesis by simp
  next
    case True
    show ?thesis
    proof (cases "truth h (region_of_content_of_headline_at_point h (view s) point)")
      case f: False
      show ?thesis using True f Suc.IH [where s = s] by (simp add: Let_def)
    next
      case t: True
      define s1 where
        "s1 = emit h (Fold (the (region_of_content_of_headline_at_point h (view s) point))) s"
      have st: "steps h is_fold_event s s1"
        unfolding s1_def by (rule steps_emit) simp
      have "steps h is_fold_event s (snd (fold_all_while h n p r s1))" for p r
        using st Suc.IH [where s = s1 and point = p and region = r] by (rule steps_trans)
      then show ?thesis using True t by (simp add: Let_def s1_def)
    qed
  qed
qed

lemma steps_foldl_emit:
  "steps h editor_call s (foldl (\<lambda>t r. emit h (Show r) (emit h (SelAdd r) t)) s rs)"
proof (induction rs arbitrary: s)
  case Nil
  show ?case by simp
next
  case (Cons r rs)
  have "steps h editor_call s (emit h (SelAdd r) s)" by (rule steps_emit) simp
  moreover have "steps h editor_call (emit h (SelAdd r) s) (emit h (Show r) (emit h (SelAdd r) s))"
    by (rule steps_emit) simp
  ultimately have "steps h editor_call s (emit h (Show r) (emit h (SelAdd r) s))"
    by (rule steps_trans)
  then show ?case using Cons.IH steps_trans by fastforce
qed

lemma steps_adjust_cursors_and_view:
  "steps h editor_call s (adjust_cursors_and_view h s)"
proof -
  have "steps h editor_call s (emit h SelClear s)" by (rule steps_emit) simp
  then show ?thesis
    unfolding adjust_cursors_and_view_def Let_def
    by (rule steps_trans) (rule steps_foldl_emit)
qed

lemma steps_unfold_all: "steps h editor_call s (snd (unfold_all h s))"
proof -
  have a: "steps h editor_call s (emit h (Unfold (Region 0 (view_size h (view s)))) s)"
    by (rule steps_emit) simp
  have b: "steps h editor_call (emit h (Unfold (Region 0 (view_size h (view s)))) s)
         (emit h (Show r) (emit h (Unfold (Region 0 (view_size h (view s)))) s))" for r
    by (rule steps_emit) simp
  show ?thesis
    using a steps_trans [OF a b]
    by (simp add: unfold_all_def Let_def split: list.split)
qed

lemma steps_fold_all: "steps h editor_call s (snd (fold_all h fuel s))"
proof (cases "fst (find_headline h (view s) 0 (ANY_LEVEL h) True False)")
  case None
  then show ?thesis by (simp add: fold_all_def)
next
  case (Some r)
  obtain fin t where w: "fold_all_while h fuel (region_a r) (Some r) s = (fin, t)"
    by (cases "fold_all_while h fuel (region_a r) (Some r) s")
  have "steps h is_fold_event s t"
    using steps_fold_all_while [of h s fuel "region_a r" "Some r"] by (simp add: w)
  then have st: "steps h editor_call s t" by (rule steps_mono) (rule fold_event_editor_call)
  have "steps h editor_call s (adjust_cursors_and_view h t)"
    using st steps_adjust_cursors_and_view by (rule steps_trans)
  then show ?thesis using st by (cases fin) (simp_all add: fold_all_def Some w)
qed

lemma steps_GlobalFoldingCommand_run:
  "steps h editor_call s (snd (GlobalFoldingCommand_run h fuel s))"
proof (cases "is_global_folded h (view s) fuel")
  case None
  then show ?thesis by (simp add: GlobalFoldingCommand_run_def)
next
  case (Some b)
  show ?thesis
  proof (cases b)
    case True
    then show ?thesis
      using Some steps_unfold_all [of h s]
      by (auto simp: GlobalFoldingCommand_run_def split: prod.split)
  next
    case False
    then show ?thesis
      using Some steps_fold_all [of h s fuel] by (simp add: GlobalFoldingCommand_run_def)
  qed
qed

lemma replay_no_mutation: "list_all (\<lambda>e. \<not> is_mutation e) es \<Longrightarrow> replay h es v = v"
  by (induction es arbitrary: v rule: rev_induct) simp_all

lemma filter_no_mutation: "list_all (\<lambda>e. \<not> is_mutation e) es \<Longrightarrow> filter is_mutation es = []"
  by (induction es) simp_all

lemma no_subprocess_editor_call: "list_all editor_call es \<Longrightarrow> subprocess_cmds es = []"
  by (induction es rule: subprocess_cmds.induct) simp_all

lemma steps_written: "steps h (\<lambda>e. \<not> is_mutation e) s (written h w s)"
proof -
  have "steps h (\<lambda>e. \<not> is_mutation e) s (emit h (CreateTemp (tmp_name w 0 @ ''.md'') ''.md'') s)"
    by (rule steps_emit) simp
  moreover have "steps h (\<lambda>e. \<not> is_mutation e) (emit h (CreateTemp (tmp_name w 0 @ ''.md'') ''.md'') s)
      (written h w s)"
    unfolding written_def by (rule steps_emit) simp
  ultimately show ?thesis by (rule steps_trans)
qed

lemma steps_run_pandoc: "steps h (\<lambda>e. \<not> is_mutation e) s (snd (run_pandoc h w i out args s))"
proof (cases args)
  case None
  then show ?thesis by (simp add: run_pandoc_def)
next
  case (Some xs)
  define cmd where "cmd = [''pandoc''] @ xs @ [i, ''-o'', out]"
  have a: "steps h (\<lambda>e. \<not> is_mutation e) s (emit h (SubprocessCall cmd) s)"
    by (rule steps_emit) simp
  have b: "steps h (\<lambda>e. \<not> is_mutation e) (emit h (SubprocessCall cmd) s)
             (emit h (ErrorMessage m) (emit h (SubprocessCall cmd) s))" for m
    by (rule steps_emit) simp
  show ?thesis
    using a steps_trans [OF a b]
    by (simp add: run_pandoc_def Some Let_def cmd_def split: option.split)
qed

lemma steps_subprocess_call:
  "steps h (\<lambda>e. \<not> is_mutation e) s (snd (subprocess_call h w cmd s))"
proof -
  have "steps h (\<lambda>e. \<not> is_mutation e) s (emit h (SubprocessCall cmd) s)"
    by (rule steps_emit) simp
  then show ?thesis by (simp add: subprocess_call_def Let_def split: option.split)
qed

lemma steps_open_result:
  "steps h (\<lambda>e. \<not> is_mutation e) s (snd (open_result h w out t s))"
proof -
  have a: "steps h (\<lambda>e. \<not> is_mutation e) s (emit h (OpenNewTab out) s)"
    by (rule steps_emit) simp
  have b: "steps h (\<lambda>e. \<not> is_mutation e) s (emit h (StartFile out) s)"
    by (rule steps_emit) simp
  show ?thesis
    unfolding open_result_def
    by (simp only: if_distrib [of snd] snd_conv if_distrib [of "steps h (\<lambda>e. \<not> is_mutation e) s"]
          a b steps_subprocess_call steps_refl if_True if_cancel cong: if_cong)
qed

lemma steps_convert:
  "steps h (\<lambda>e. \<not> is_mutation e) s (snd (convert h w t oa i out s))"
proof -
  obtain r s1 where p: "run_pandoc h w i out (pandoc_args t) s = (r, s1)"
    by (cases "run_pandoc h w i out (pandoc_args t) s")
  have a: "steps h (\<lambda>e. \<not> is_mutation e) s s1"
    using steps_run_pandoc [of h s w i out "pandoc_args t"] by (simp add: p)
  have b: "steps h (\<lambda>e. \<not> is_mutation e) s (snd (open_result h w out t s1))"
    using a steps_open_result by (rule steps_trans)
  show ?thesis
  proof (cases r)
    case (Inl e)
    then show ?thesis using a by (simp add: convert_def p)
  next
    case (Inr u)
    then show ?thesis using a b by (cases oa) (simp_all add: convert_def p)
  qed
qed

lemma steps_PandocRenderCommand_run:
  "steps h (\<lambda>e. \<not> is_mutation e) s (snd (PandocRenderCommand_run h w t oa sr aa s))"
proof (rule run_paths [of t _ sr h s], goal_cases unsupported no_name empty_name save temp)
  case unsupported
  show ?case by (simp only: run_unsupported [OF unsupported] snd_conv steps_refl)
next
  case no_name
  show ?case using no_name(2)
    by (simp only: run_no_name [OF no_name(1) no_name(3)] snd_conv steps_written)
next
  case empty_name
  show ?case using empty_name(2)
    by (simp only: run_empty_name [OF empty_name(1) empty_name(3)] snd_conv steps_written)
next
  case (save f)
  have "steps h (\<lambda>e. \<not> is_mutation e) s
     (snd (convert h w t oa (tmp_name w 0 @ ''.md'') (fst (splitext w f) @ ''.'' @ t) (written h w s)))"
    using steps_written steps_convert by (rule steps_trans)
  then show ?case using save(2)
    by (simp only: run_save [OF save(1) save(3) save(4)])
next
  case temp
  define s3 where "s3 = emit h (CreateTemp (tmp_name w 1 @ ''.'' @ t) (''.'' @ t)) (written h w s)"
  have "steps h (\<lambda>e. \<not> is_mutation e) (written h w s) s3"
    unfolding s3_def by (rule steps_emit) simp
  with steps_written have "steps h (\<lambda>e. \<not> is_mutation e) s s3" by (rule steps_trans)
  then have "steps h (\<lambda>e. \<not> is_mutation e) s
     (snd (convert h w t oa (tmp_name w 0 @ ''.md'') (tmp_name w 1 @ ''.'' @ t) s3))"
    using steps_convert by (rule steps_trans)
  then show ?case using temp(2)
    by (simp only: run_temp [OF temp(1)] s3_def)
qed

lemma if_chain:
  "(if a then [] else if b then [] else if c then x else if d then y else []) = [] \<or>
   (if a then [] else if b then [] else if c then x else if d then y else []) = x \<or>
   (if a then [] else if b then [] else if c then x else if d then y else []) = y"
  by simp

lemma subprocess_cmds_opener:
  "subprocess_cmds (opener w out t) = [] \<or>
   subprocess_cmds (opener w out t) = [[''open'', out]] \<or>
   subprocess_cmds (opener w out t) = [[''xdg-open'', out]]"
  unfolding opener_def
  by (simp only: if_distrib [of subprocess_cmds] subprocess_cmds.simps cong: if_cong) (rule if_chain)

lemma subprocess_cmds_error_message [simp]:
  "subprocess_cmds (case x of None \<Rightarrow> [] | Some e \<Rightarrow> [ErrorMessage (f e)]) = []"
  by (cases x) simp_all

lemma opener_started:
  "list_all started (subprocess_cmds (opener w out t)) \<and>
   filter is_pandoc (subprocess_cmds (opener w out t)) = []"
  using subprocess_cmds_opener [of w out t]
  by (auto simp: started_def is_pandoc_def)

lemma convert_tail_started:
  "list_all started
     (subprocess_cmds
        ((case call_error w c of None \<Rightarrow> []
          | Some e \<Rightarrow> [ErrorMessage (''Unable to execute Pandoc.  '' @ [CHR 0x0A, CHR 0x0A] @ ''Details: '' @ e)])
         @ (if oa then opener w out t else []))) \<and>
   filter is_pandoc
     (subprocess_cmds
        ((case call_error w c of None \<Rightarrow> []
          | Some e \<Rightarrow> [ErrorMessage (''Unable to execute Pandoc.  '' @ [CHR 0x0A, CHR 0x0A] @ ''Details: '' @ e)])
         @ (if oa then opener w out t else []))) = []"
  using opener_started [of w out t]
  by (cases oa) (simp_all del: append.simps)

lemma pandoc_started: "started ([''pandoc''] @ xs @ ys)" "is_pandoc ([''pandoc''] @ xs @ ys)"
  by (simp_all add: started_def is_pandoc_def)

lemma pandoc_run_subprocesses:
  "list_all started
     (subprocess_cmds (added s (snd (PandocRenderCommand_run h w t oa sr aa s)))) \<and>
   length (filter is_pandoc
     (subprocess_cmds (added s (snd (PandocRenderCommand_run h w t oa sr aa s))))) \<le> 1"
proof (rule run_paths [of t _ sr h s], goal_cases unsupported no_name empty_name save temp)
  case unsupported
  show ?case by (simp only: run_unsupported [OF unsupported] snd_conv added_self) simp
next
  case no_name
  show ?case using no_name(2)
    by (simp only: run_no_name [OF no_name(1) no_name(3)] snd_conv added_written) simp
next
  case empty_name
  show ?case using empty_name(2)
    by (simp only: run_empty_name [OF empty_name(1) empty_name(3)] snd_conv added_written) simp
next
  case (save f)
  obtain xs where xs: "pandoc_args t = Some xs"
    using pandoc_args_supported [OF save(1)] by blast
  show ?case using save(2)
    by (simp only: run_save [OF save(1) save(3) save(4)] added_convert_written [OF xs])
       (simp add: opener_started pandoc_started del: append.simps)
next
  case temp
  obtain xs where xs: "pandoc_args t = Some xs"
    using pandoc_args_supported [OF temp(1)] by blast
  show ?case using temp(2)
    by (simp only: run_temp [OF temp(1)] added_convert_temp [OF xs])
       (simp add: opener_started pandoc_started del: append.simps)
qed

text \<open>
  C6. The conversion command mutates none of the editor's entities: after
  \<open>PandocRenderCommand.run\<close> the view is the one it started with and the run made no
  mutating host call. The folding commands change the view only through host calls: the
  view after \<open>SmartFoldingCommand.run\<close> and after \<open>GlobalFoldingCommand.run\<close> is the view
  before with the logged calls \<open>insert\<close>, \<open>fold\<close>, \<open>unfold\<close>, \<open>sel().clear\<close> and
  \<open>sel().add\<close> applied by the host in their order, and every logged request is one of
  these or \<open>show\<close>.
\<close>

theorem editor_state_changes_only_through_host_calls:
  "view (snd (PandocRenderCommand_run h w target openAfter saveResult additionalArguments s)) = view s \<and>
   filter is_mutation
     (added s (snd (PandocRenderCommand_run h w target openAfter saveResult additionalArguments s))) = [] \<and>
   view (snd (SmartFoldingCommand_run h d s)) =
     replay h (filter is_mutation (added s (snd (SmartFoldingCommand_run h d s)))) (view s) \<and>
   list_all editor_call (added s (snd (SmartFoldingCommand_run h d s))) \<and>
   view (snd (GlobalFoldingCommand_run h fuel s)) =
     replay h (filter is_mutation (added s (snd (GlobalFoldingCommand_run h fuel s)))) (view s) \<and>
   list_all editor_call (added s (snd (GlobalFoldingCommand_run h fuel s)))"
proof -
  note p = stepsD [OF steps_PandocRenderCommand_run [of h s w target openAfter saveResult additionalArguments]]
  note f = stepsD [OF steps_SmartFoldingCommand_run [of h s d]]
  note g = stepsD [OF steps_GlobalFoldingCommand_run [of h s fuel]]
  show ?thesis
    using p(3) replay_no_mutation [OF p(2)] filter_no_mutation [OF p(2)] f(2,3) g(2,3)
    by (simp add: replay_filter)
qed




section \<open>Claims about the folding commands\<close>

declare fold_or_unfold_headline_at_point.simps [simp del]

lemma not_headline_no_effect:
  "\<not> headline_at h (view s) p \<Longrightarrow>
   fold_or_unfold_headline_at_point h (Suc d) p l s = (Inr False, s)"
  by (auto simp: headline_at_def fold_or_unfold_headline_at_point.simps split: option.split)

lemma headline_matches:
  "headline_at h (view s) p \<Longrightarrow>
   fst (fold_or_unfold_headline_at_point h (Suc d) p l s) \<noteq> Inr False"
  by (auto simp: headline_at_def fold_or_unfold_headline_at_point.simps
        split: option.split prod.split sum.split)

lemma match_selection_no_headline:
  "list_all (\<lambda>r. \<not> headline_at h (view s) (region_a r)) rs \<Longrightarrow>
   match_selection h (Suc d) rs ever s = (Inr ever, s)"
  by (induction rs arbitrary: ever) (simp_all add: not_headline_no_effect)

lemma match_selection_ever:
  "fst (match_selection h (Suc d) rs True s) \<noteq> Inr False"
proof (induction rs arbitrary: s)
  case Nil
  show ?case by simp
next
  case (Cons r rs)
  obtain res t where c:
    "fold_or_unfold_headline_at_point h (Suc d) (region_a r) (ANY_LEVEL h) s = (res, t)"
    by (cases "fold_or_unfold_headline_at_point h (Suc d) (region_a r) (ANY_LEVEL h) s")
  show ?case
    using Cons.IH [of t]
    by (cases res) (simp_all add: c)
qed

lemma match_selection_headline:
  "list_ex (\<lambda>r. headline_at h (view s) (region_a r)) rs \<Longrightarrow>
   fst (match_selection h (Suc d) rs ever s) \<noteq> Inr False"
proof (induction rs arbitrary: ever)
  case Nil
  then show ?case by simp
next
  case (Cons r rs)
  show ?case
  proof (cases "headline_at h (view s) (region_a r)")
    case False
    then show ?thesis
      using Cons
      by (simp add: not_headline_no_effect)
  next
    case True
    obtain res t where c:
      "fold_or_unfold_headline_at_point h (Suc d) (region_a r) (ANY_LEVEL h) s = (res, t)"
      by (cases "fold_or_unfold_headline_at_point h (Suc d) (region_a r) (ANY_LEVEL h) s")
    have "res \<noteq> Inr False"
      using headline_matches [OF True, of d "ANY_LEVEL h"] by (simp add: c)
    then show ?thesis
      using match_selection_ever [of h d rs t]
      by (cases res) (auto simp: c)
  qed
qed

lemma added_emit: "added s (emit h e t) = added s t @ [e]" if "length (log s) \<le> length (log t)"
  using that by (simp add: added_def)

lemma for_each_insert_tab:
  "for_each (insert_tab h) rs s =
     (Inr (), foldl (\<lambda>t r. emit h (Show r) (emit h (Insert (region_a r) [CHR 0x09]) t)) s rs)"
  by (induction rs arbitrary: s) (simp_all add: insert_tab_def)

lemma log_foldl_tabs:
  "log (foldl (\<lambda>t r. emit h (Show r) (emit h (Insert (region_a r) [CHR 0x09]) t)) s rs) =
     log s @ concat (map (\<lambda>r. [Insert (region_a r) [CHR 0x09], Show r]) rs)"
  by (induction rs arbitrary: s) simp_all

lemma fold_event_not_insert: "list_all is_fold_event es \<Longrightarrow> filter is_insert es = []"
proof (induction es)
  case Nil
  show ?case by simp
next
  case (Cons e es)
  then show ?case by (cases e) simp_all
qed

lemma log_emit_first:
  assumes "steps h P (emit h e s) t"
  shows "take 1 (added s t) = [e]"
proof -
  have "log t = (log s @ [e]) @ added (emit h e s) t"
    using stepsD(1) [OF assms] by simp
  then have "log t = log s @ e # added (emit h e s) t" by simp
  then have "added s t = e # added (emit h e s) t" by (rule added_append)
  then show ?thesis by simp
qed

lemma unfold_yet_first:
  "take 1 (added s (snd (unfold_yet_fold_subheads h (fold_or_unfold_headline_at_point h d) r lvl s))) =
     [Unfold r]"
proof (rule log_emit_first [where P = is_fold_event and h = h])
  have body: "steps h is_fold_event t
      (snd (case fold_or_unfold_headline_at_point h d (text_point h (view t) i 0) (lvl + 1) t of
              (Inl e, t1) \<Rightarrow> (Inl e, t1) | (Inr _, t1) \<Rightarrow> (Inr (), t1)))" for i t
  proof -
    obtain res t1 where c:
      "fold_or_unfold_headline_at_point h d (text_point h (view t) i 0) (lvl + 1) t = (res, t1)"
      by (cases "fold_or_unfold_headline_at_point h d (text_point h (view t) i 0) (lvl + 1) t")
    have "steps h is_fold_event t t1"
      using steps_fold_or_unfold [of h t d "text_point h (view t) i 0" "lvl + 1"] by (simp add: c)
    then show ?thesis by (cases res) (simp_all add: c)
  qed
  show "steps h is_fold_event (emit h (Unfold r) s)
     (snd (unfold_yet_fold_subheads h (fold_or_unfold_headline_at_point h d) r lvl s))"
    unfolding unfold_yet_fold_subheads_def Let_def
    by (rule steps_for_each) (rule body)
qed

lemma totally_folded_nonempty:
  "region_a r \<noteq> region_b r \<Longrightarrow>
   is_region_totally_folded h v (Some r) = list_ex (\<lambda>f. region_contains h f r) (folded_regions h v)"
  by (simp add: is_region_totally_folded_def)

lemma toggle_unfold:
  assumes "headline_and_level_at_point h (view s) p = Some lvl" "is_scope_headline h (view s) p"
    and "region_of_content_of_headline_at_point h (view s) p = Some r"
    and "is_region_totally_folded h (view s) (Some r)"
  shows "snd (fold_or_unfold_headline_at_point h (Suc d) p l s) =
           snd (unfold_yet_fold_subheads h (fold_or_unfold_headline_at_point h d) r lvl s)"
    and "fst (fold_or_unfold_headline_at_point h (Suc d) p l s) \<noteq> Inr False"
  using assms
  by (auto simp: fold_or_unfold_headline_at_point.simps split: prod.split sum.split)

lemma toggle_fold:
  assumes "headline_and_level_at_point h (view s) p = Some lvl" "is_scope_headline h (view s) p"
    and "region_of_content_of_headline_at_point h (view s) p = Some r"
    and "\<not> is_region_totally_folded h (view s) (Some r)"
  shows "fold_or_unfold_headline_at_point h (Suc d) p l s = (Inr True, emit h (Fold r) s)"
  using assms by (simp add: fold_or_unfold_headline_at_point.simps fold_region_def)

lemma truth_Some: "truth h region \<Longrightarrow> \<exists>r. region = Some r"
  by (cases region) (simp_all add: truth_def)

lemma advancesD:
  assumes "advances h"
  shows "fst (find_headline h v p (ANY_LEVEL h) True True) = Some r \<Longrightarrow>
           p < region_a r \<and> region_a r \<le> view_size h v"
    and "fst (find_headline h v 0 (ANY_LEVEL h) True False) = Some r \<Longrightarrow>
           0 \<le> region_a r \<and> region_a r \<le> view_size h v"
    and "region_of_content_of_headline_at_point h v p = Some r \<Longrightarrow> p \<le> region_b r"
    and "view_size h (view_fold h r v) = view_size h v"
  using assms unfolding advances_def by blast+

lemma content_point:
  assumes "advances h"
  shows "point \<le> (if truth h (region_of_content_of_headline_at_point h v point)
                   then region_b (the (region_of_content_of_headline_at_point h v point)) else point)"
proof (cases "truth h (region_of_content_of_headline_at_point h v point)")
  case True
  then obtain r where r: "region_of_content_of_headline_at_point h v point = Some r"
    using truth_Some by blast
  then show ?thesis using True advancesD(3) [OF assms r] by simp
next
  case False
  then show ?thesis by simp
qed

lemma is_global_folded_while_returns:
  assumes adv: "advances h"
  shows "point \<le> view_size h v \<Longrightarrow> nat (view_size h v - point) < fuel \<Longrightarrow>
         is_global_folded_while h v fuel point region \<noteq> None"
proof (induction fuel arbitrary: point region)
  case 0
  then show ?case by simp
next
  case (Suc n)
  define p1 where "p1 = (if truth h (region_of_content_of_headline_at_point h v point)
                   then region_b (the (region_of_content_of_headline_at_point h v point)) else point)"
  define r2 where "r2 = fst (find_headline h v p1 (ANY_LEVEL h) True True)"
  define p2 where "p2 = (if truth h r2 then region_a (the r2) else p1)"
  have p1: "point \<le> p1" unfolding p1_def by (rule content_point [OF adv])
  have rec: "is_global_folded_while h v n p2 r2 \<noteq> None"
  proof (cases "truth h r2")
    case False
    then show ?thesis by (cases n) simp_all
  next
    case True
    then obtain r where r: "r2 = Some r" using truth_Some by blast
    have "p1 < region_a r \<and> region_a r \<le> view_size h v"
      using advancesD(1) [OF adv, of v p1 r] r by (simp add: r2_def)
    then have "p2 \<le> view_size h v" "nat (view_size h v - p2) < n"
      using True r p1 Suc.prems unfolding p2_def by (simp, simp, arith)
    then show ?thesis by (rule Suc.IH)
  qed
  have eq: "is_global_folded_while h v (Suc n) point region =
      (if \<not> truth h region then Some True
       else if \<not> is_region_totally_folded h v (region_of_content_of_headline_at_point h v point)
            then Some False
            else is_global_folded_while h v n p2 r2)"
    unfolding p2_def r2_def p1_def by (simp add: Let_def)
  show ?case
    using rec by (simp only: eq) auto
qed

lemma fold_all_while_returns:
  assumes adv: "advances h"
  shows "point \<le> view_size h (view s) \<Longrightarrow> nat (view_size h (view s) - point) < fuel \<Longrightarrow>
         fst (fold_all_while h fuel point region s)"
proof (induction fuel arbitrary: point region s)
  case 0
  then show ?case by simp
next
  case (Suc n)
  define r1 where "r1 = region_of_content_of_headline_at_point h (view s) point"
  define p1 where "p1 = (if truth h r1 then region_b (the r1) else point)"
  define s1 where "s1 = (if truth h r1 then emit h (Fold (the r1)) s else s)"
  define r2 where "r2 = fst (find_headline h (view s1) p1 (ANY_LEVEL h) True True)"
  define p2 where "p2 = (if truth h r2 then region_a (the r2) else p1)"
  have p1: "point \<le> p1" unfolding p1_def r1_def by (rule content_point [OF adv])
  have size: "view_size h (view s1) = view_size h (view s)"
    unfolding s1_def by (simp add: advancesD(4) [OF adv])
  have rec: "fst (fold_all_while h n p2 r2 s1)"
  proof (cases "truth h r2")
    case False
    then show ?thesis by (cases n) simp_all
  next
    case True
    then obtain r where r: "r2 = Some r" using truth_Some by blast
    have "p1 < region_a r \<and> region_a r \<le> view_size h (view s1)"
      using advancesD(1) [OF adv, of "view s1" p1 r] r by (simp add: r2_def)
    then have "p2 \<le> view_size h (view s1)" "nat (view_size h (view s1) - p2) < n"
      using True r p1 Suc.prems size unfolding p2_def by (simp, simp, arith)
    then show ?thesis by (rule Suc.IH)
  qed
  have eq: "fold_all_while h (Suc n) point region s =
      (if \<not> truth h region then (True, s) else fold_all_while h n p2 r2 s1)"
    unfolding p2_def r2_def s1_def p1_def r1_def by (simp add: Let_def)
  show ?case
    using rec by (simp only: eq) auto
qed

lemma is_global_folded_returns:
  assumes adv: "advances h" and fuel: "nat (view_size h v) < fuel"
  shows "is_global_folded h v fuel \<noteq> None"
proof (cases "truth h (fst (find_headline h v 0 (ANY_LEVEL h) True False))")
  case False
  then show ?thesis by (simp add: is_global_folded_def)
next
  case True
  then obtain r where r: "fst (find_headline h v 0 (ANY_LEVEL h) True False) = Some r"
    using truth_Some by blast
  have b: "0 \<le> region_a r \<and> region_a r \<le> view_size h v" by (rule advancesD(2) [OF adv r])
  then have "nat (view_size h v - region_a r) < fuel" using fuel by arith
  then have "is_global_folded_while h v fuel (region_a r) (Some r) \<noteq> None"
    using b is_global_folded_while_returns [OF adv] by blast
  then show ?thesis using True r by (simp add: is_global_folded_def)
qed

lemma fold_all_returns:
  assumes adv: "advances h" and fuel: "nat (view_size h (view s)) < fuel"
  shows "fst (fold_all h fuel s) \<noteq> None"
proof (cases "fst (find_headline h (view s) 0 (ANY_LEVEL h) True False)")
  case None
  then show ?thesis by (simp add: fold_all_def)
next
  case (Some r)
  have b: "0 \<le> region_a r \<and> region_a r \<le> view_size h (view s)" by (rule advancesD(2) [OF adv Some])
  then have "nat (view_size h (view s) - region_a r) < fuel" using fuel by arith
  then have "fst (fold_all_while h fuel (region_a r) (Some r) s)"
    using b fold_all_while_returns [OF adv] by blast
  then show ?thesis by (auto simp: fold_all_def Some split: prod.split)
qed

lemma advances_example_host: "advances example_host"
  by (auto simp: advances_def example_host_def example_find_def split: if_splits)







end
